theory Spec2Isabelle
  imports Complex_Main "HOL-Library.Multiset"
begin

section \<open>Strings of the program\<close>

text \<open>
  A JavaScript string is a sequence of UTF-16 code units. A code unit is modelled as its
  number, a string as the list of its code units, so that the Japanese filler phrases of
  \<open>areSimilarThemes\<close> and the Unicode white space that \<open>trim\<close> and \<open>\s\<close> strip are
  what they are in the program. \<open>js\<close> turns an ASCII literal into such a string.
\<close>

type_synonym jschar = nat
type_synonym jsstring = "jschar list"

definition js :: "string \<Rightarrow> jsstring" where
  "js s = map of_char s"

definition NL :: jschar where
  "NL = 10"

text \<open>White space and line terminators of ECMAScript: what \<open>String.prototype.trim\<close>
  removes and what \<open>\s\<close> matches.\<close>

definition isWhiteSpace :: "jschar \<Rightarrow> bool" where
  "isWhiteSpace c \<longleftrightarrow>
     c \<in> {0x09, 0x0A, 0x0B, 0x0C, 0x0D, 0x20, 0xA0, 0x1680, 0x2028, 0x2029, 0x202F,
          0x205F, 0x3000, 0xFEFF} \<or> (0x2000 \<le> c \<and> c \<le> 0x200A)"

text \<open>\<open>\d\<close> without the unicode flag: the ASCII digits only.\<close>

definition isDigit :: "jschar \<Rightarrow> bool" where
  "isDigit c \<longleftrightarrow> 48 \<le> c \<and> c \<le> 57"

definition trim :: "jsstring \<Rightarrow> jsstring" where
  "trim s = rev (dropWhile isWhiteSpace (rev (dropWhile isWhiteSpace s)))"

text \<open>\<open>s.split(d)\<close> for a one-unit separator: never the empty array.\<close>

fun splitOn :: "jschar \<Rightarrow> jsstring \<Rightarrow> jsstring list" where
  "splitOn d [] = [[]]"
| "splitOn d (c # cs) =
     (if c = d then [] # splitOn d cs
      else (case splitOn d cs of
              w # ws \<Rightarrow> (c # w) # ws
            | [] \<Rightarrow> [[c]]))"

text \<open>\<open>xs.join(sep)\<close>.\<close>

fun joinWith :: "jsstring \<Rightarrow> jsstring list \<Rightarrow> jsstring" where
  "joinWith sep [] = []"
| "joinWith sep [x] = x"
| "joinWith sep (x # y # ys) = x @ sep @ joinWith sep (y # ys)"

text \<open>\<open>s.padStart(n, c)\<close> for a one-unit pad string.\<close>

definition padStart :: "nat \<Rightarrow> jschar \<Rightarrow> jsstring \<Rightarrow> jsstring" where
  "padStart n c s = replicate (n - length s) c @ s"

text \<open>\<open>String(n)\<close> for an integral number \<open>n\<close> of magnitude below \<open>10^21\<close>, where
  JavaScript prints plain decimal digits, with a minus sign for a negative one.\<close>

fun digitsOf :: "nat \<Rightarrow> jsstring" where
  "digitsOf n = (if n < 10 then [48 + n] else digitsOf (n div 10) @ [48 + n mod 10])"

definition numToString :: "int \<Rightarrow> jsstring" where
  "numToString i = (if i < 0 then 45 # digitsOf (nat (- i)) else digitsOf (nat i))"

text \<open>The value of a string of decimal digits: \<open>parseInt\<close> on a group captured by
  \<open>\d{n}\<close>, which is never \<open>NaN\<close>.\<close>

definition decVal :: "jsstring \<Rightarrow> nat" where
  "decVal s = foldl (\<lambda>acc c. 10 * acc + (c - 48)) 0 s"

text \<open>
  \<open>parseInt(s)\<close> with no radix: leading white space is skipped, a sign is read, a
  \<open>0x\<close> or \<open>0X\<close> prefix selects radix 16, and the longest prefix of digits is the value;
  \<open>None\<close> is \<open>NaN\<close> (no digit). The value is the mathematical one: exact in the
  program for magnitudes up to \<open>2^53\<close>.
\<close>

definition hexDigit :: "jschar \<Rightarrow> nat option" where
  "hexDigit c =
     (if 48 \<le> c \<and> c \<le> 57 then Some (c - 48)
      else if 97 \<le> c \<and> c \<le> 102 then Some (c - 87)
      else if 65 \<le> c \<and> c \<le> 70 then Some (c - 55)
      else None)"

definition hexVal :: "jsstring \<Rightarrow> nat" where
  "hexVal s = foldl (\<lambda>acc c. 16 * acc + (case hexDigit c of Some v \<Rightarrow> v | None \<Rightarrow> 0)) 0 s"

definition parseInt :: "jsstring \<Rightarrow> int option" where
  "parseInt s =
     (let s1 = dropWhile isWhiteSpace s;
          sign = (case s1 of c # _ \<Rightarrow> if c = 45 then (- 1 :: int) else 1 | [] \<Rightarrow> 1);
          s2 = (case s1 of c # r \<Rightarrow> if c = 45 \<or> c = 43 then r else s1 | [] \<Rightarrow> s1)
      in (case s2 of
            a # b # r \<Rightarrow>
              if a = 48 \<and> (b = 120 \<or> b = 88) then
                (let z = takeWhile (\<lambda>c. hexDigit c \<noteq> None) r
                 in if z = [] then None else Some (sign * int (hexVal z)))
              else
                (let z = takeWhile isDigit s2
                 in if z = [] then None else Some (sign * int (decVal z)))
          | _ \<Rightarrow>
              (let z = takeWhile isDigit s2
               in if z = [] then None else Some (sign * int (decVal z)))))"

section \<open>The regular expressions of the program\<close>

text \<open>
  Every pattern the modelled functions search for is a fixed sequence of atoms, each
  \<open>\d\<close> or one literal code unit. \<open>matchesAt\<close> matches the pattern at the front of a
  string; \<open>search\<close> returns the rest of the string from the leftmost match on, as
  \<open>String.prototype.match\<close> finds it.
\<close>

datatype atom = D | C jschar

fun matchesAt :: "atom list \<Rightarrow> jsstring \<Rightarrow> bool" where
  "matchesAt [] s = True"
| "matchesAt (a # as) [] = False"
| "matchesAt (D # as) (c # cs) = (isDigit c \<and> matchesAt as cs)"
| "matchesAt (C x # as) (c # cs) = (c = x \<and> matchesAt as cs)"

fun search :: "atom list \<Rightarrow> jsstring \<Rightarrow> jsstring option" where
  "search p [] = (if matchesAt p [] then Some [] else None)"
| "search p (c # cs) = (if matchesAt p (c # cs) then Some (c # cs) else search p cs)"

text \<open>\<open>\d{2}:\d{2}:\d{2},\d{3}\<close> and the pair \<open>... --> ...\<close> (29 code units).\<close>

definition tsAtoms :: "atom list" where
  "tsAtoms = [D, D, C 58, D, D, C 58, D, D, C 44, D, D, D]"

definition pairAtoms :: "atom list" where
  "pairAtoms = tsAtoms @ map C (js '' --> '') @ tsAtoms"

section \<open>Subtitle cues: \<open>src/utils/srt.ts\<close>\<close>

record subtitle =
  sub_id :: int
  sub_start :: jsstring
  sub_end :: jsstring
  sub_text :: jsstring

text \<open>\<open>/^\d+$/.test(s)\<close>.\<close>

definition allDigits :: "jsstring \<Rightarrow> bool" where
  "allDigits s \<longleftrightarrow> s \<noteq> [] \<and> list_all isDigit s"

text \<open>The condition of the inner \<open>while\<close> of \<open>parseSrt\<close> on one line.\<close>

definition isTextLine :: "jsstring \<Rightarrow> bool" where
  "isTextLine l \<longleftrightarrow> trim l \<noteq> [] \<and> \<not> allDigits (trim l)"

text \<open>
  The outer loop of \<open>parseSrt\<close>, on the lines from index \<open>i\<close> on (the loop only ever
  looks at \<open>lines[i]\<close> and beyond) and the cues pushed so far. The two capture groups
  are the first 8 code units of the match and the 8 from offset 17.
\<close>

function parseLoop :: "jsstring list \<Rightarrow> subtitle list \<Rightarrow> subtitle list" where
  "parseLoop [] subtitles = subtitles"
| "parseLoop (l # ls) subtitles =
     (if trim l = [] then parseLoop ls subtitles
      else (case parseInt l of
              None \<Rightarrow> parseLoop ls subtitles
            | Some n \<Rightarrow>
                (case ls of
                   [] \<Rightarrow> subtitles
                 | t # rest \<Rightarrow>
                     (case search pairAtoms t of
                        None \<Rightarrow> parseLoop rest subtitles
                      | Some m \<Rightarrow>
                          parseLoop (dropWhile isTextLine rest)
                            (subtitles @
                              [\<lparr>sub_id = n, sub_start = take 8 m, sub_end = take 8 (drop 17 m),
                                sub_text = trim (concat (map (\<lambda>x. x @ [NL])
                                                    (takeWhile isTextLine rest)))\<rparr>])))))"
  by pat_completeness auto
termination
  by (relation "measure (\<lambda>(ls, acc). length ls)")
     (auto intro!: le_imp_less_Suc le_SucI length_dropWhile_le)

definition parseSrt :: "jsstring \<Rightarrow> subtitle list" where
  "parseSrt srtContent = parseLoop (splitOn NL srtContent) []"

definition formatCue :: "subtitle \<Rightarrow> jsstring" where
  "formatCue sub =
     numToString (sub_id sub) @ [NL] @ sub_start sub @ js '' --> '' @ sub_end sub @ [NL]
       @ sub_text sub @ [NL]"

definition formatSubtitlesToSrt :: "subtitle list \<Rightarrow> jsstring" where
  "formatSubtitlesToSrt subtitles = joinWith [NL] (map formatCue subtitles)"

section \<open>Numbers of the program\<close>

text \<open>
  A JavaScript number is an IEEE 754 binary64 value. A finite one is modelled as the
  rational it denotes, and every arithmetic operation as the exact operation followed by
  \<open>dbl\<close>, rounding to the nearest value with a 53-bit significand, ties to even, with the
  gradual underflow of binary64. The magnitudes of this program stay far below \<open>2^1024\<close>,
  so overflow to infinity is not modelled; neither is the sign of zero, which no modelled
  function shows.
\<close>

type_synonym number = rat

function blen :: "int \<Rightarrow> int" where
  "blen n = (if n \<le> 0 then 0 else 1 + blen (n div 2))"
  by pat_completeness auto
termination
  by (relation "measure nat") auto

definition pow2 :: "int \<Rightarrow> rat" where
  "pow2 e = (if 0 \<le> e then 2 ^ nat e else 1 / 2 ^ nat (- e))"

text \<open>For \<open>0 < x\<close>: the \<open>e\<close> with \<open>2^e \<le> x < 2^(e+1)\<close>.\<close>

definition binexp :: "rat \<Rightarrow> int" where
  "binexp x = (if 1 \<le> x then blen \<lfloor>x\<rfloor> - 1 else - blen (\<lceil>1 / x\<rceil> - 1))"

definition roundEven :: "rat \<Rightarrow> int" where
  "roundEven r =
     (let f = \<lfloor>r\<rfloor>; d = r - of_int f
      in if d < 1 / 2 then f
         else if 1 / 2 < d then f + 1
         else if even f then f else f + 1)"

definition dbl :: "rat \<Rightarrow> number" where
  "dbl x =
     (if x = 0 then 0
      else (let a = \<bar>x\<bar>; q = max (binexp a - 52) (- 1074)
            in sgn x * of_int (roundEven (a / pow2 q)) * pow2 q))"

definition dadd :: "number \<Rightarrow> number \<Rightarrow> number" where
  "dadd a b = dbl (a + b)"

definition dsub :: "number \<Rightarrow> number \<Rightarrow> number" where
  "dsub a b = dbl (a - b)"

definition dmul :: "number \<Rightarrow> number \<Rightarrow> number" where
  "dmul a b = dbl (a * b)"

text \<open>\<open>a / b\<close> for \<open>b\<close> other than zero.\<close>

definition ddiv :: "number \<Rightarrow> number \<Rightarrow> number" where
  "ddiv a b = dbl (a / b)"

text \<open>\<open>a % b\<close> for \<open>b\<close> other than zero: the remainder of the division truncated
  towards zero, which binary64 computes exactly.\<close>

definition jsmod :: "number \<Rightarrow> number \<Rightarrow> number" where
  "jsmod a b =
     (let q = a / b; t = (if 0 \<le> q then \<lfloor>q\<rfloor> else \<lceil>q\<rceil>)
      in a - b * of_int t)"

section \<open>Timestamps: \<open>src/utils/format.ts\<close>\<close>

text \<open>The four capture groups of \<open>(\d{2}):(\d{2}):(\d{2}),(\d{3})\<close> in a string
  that starts with a match, as numbers.\<close>

definition tsHours :: "jsstring \<Rightarrow> number" where
  "tsHours m = of_nat (decVal (take 2 m))"

definition tsMinutes :: "jsstring \<Rightarrow> number" where
  "tsMinutes m = of_nat (decVal (take 2 (drop 3 m)))"

definition tsSeconds :: "jsstring \<Rightarrow> number" where
  "tsSeconds m = of_nat (decVal (take 2 (drop 6 m)))"

definition tsMillis :: "jsstring \<Rightarrow> number" where
  "tsMillis m = of_nat (decVal (take 3 (drop 9 m)))"

definition tsValue :: "jsstring \<Rightarrow> number" where
  "tsValue m =
     dadd (dadd (dadd (dmul (tsHours m) 3600) (dmul (tsMinutes m) 60)) (tsSeconds m))
          (ddiv (tsMillis m) 1000)"

definition timeToSeconds :: "jsstring \<Rightarrow> number" where
  "timeToSeconds timeStr =
     (case search tsAtoms timeStr of
        None \<Rightarrow> 0
      | Some m \<Rightarrow> tsValue m)"

definition formatTimestamp :: "number \<Rightarrow> jsstring" where
  "formatTimestamp time =
     (let hours = \<lfloor>ddiv time 3600\<rfloor>;
          minutes = \<lfloor>ddiv (jsmod time 3600) 60\<rfloor>;
          seconds = \<lfloor>jsmod time 60\<rfloor>;
          milliseconds = \<lfloor>dmul (jsmod time 1) 1000\<rfloor>
      in padStart 2 48 (numToString hours) @ [58] @ padStart 2 48 (numToString minutes) @ [58]
           @ padStart 2 48 (numToString seconds) @ [44]
           @ padStart 3 48 (numToString milliseconds))"

text \<open>The replacement callback of \<open>adjustSrtTimestamps\<close> on one match.\<close>

definition adjustMatch :: "number \<Rightarrow> jsstring \<Rightarrow> jsstring" where
  "adjustMatch offsetSeconds m =
     (let startTime = dadd (tsValue m) offsetSeconds;
          endTime = dadd (tsValue (drop 17 m)) offsetSeconds
      in formatTimestamp startTime @ js '' --> '' @ formatTimestamp endTime)"

text \<open>\<open>srtContent.replace(timeRegex, ...)\<close> with the global flag: from left to right,
  a match of the 29 code units is replaced and the scan goes on after it, any other code
  unit is copied.\<close>

function adjustSrtTimestamps :: "jsstring \<Rightarrow> number \<Rightarrow> jsstring" where
  "adjustSrtTimestamps [] offsetSeconds = []"
| "adjustSrtTimestamps (c # cs) offsetSeconds =
     (if matchesAt pairAtoms (c # cs)
      then adjustMatch offsetSeconds (take 29 (c # cs))
             @ adjustSrtTimestamps (drop 29 (c # cs)) offsetSeconds
      else c # adjustSrtTimestamps cs offsetSeconds)"
  by pat_completeness auto
termination
  by (relation "measure (\<lambda>(s, off). length s)") auto

section \<open>Theme spans: \<open>src/utils/file.ts\<close> (imported as \<open>utils/themes\<close>)\<close>

record ThemeEntry =
  th_start :: jsstring
  th_end :: jsstring
  theme :: jsstring

text \<open>
  \<open>String.prototype.toLowerCase\<close> is the case conversion of the Unicode tables of the
  runtime. The functions that call it take it as the parameter \<open>toLowerCase\<close>;
  \<open>asciiLower\<close>, which converts the letters \<open>A\<close> to \<open>Z\<close> only, is what it does on the
  strings of the examples below.
\<close>

definition asciiLower :: "jsstring \<Rightarrow> jsstring" where
  "asciiLower s = map (\<lambda>c. if 65 \<le> c \<and> c \<le> 90 then c + 32 else c) s"

text \<open>The alternatives of the first \<open>replace\<close> of \<open>normalizeTheme\<close>, in the order
  of the regular expression, and the class of the second.\<close>

definition fillers :: "jsstring list" where
  "fillers =
     [[0x306B, 0x3064, 0x3044, 0x3066], [0x306B, 0x95A2, 0x3057, 0x3066],
      [0x3068, 0x306F], [0x306E, 0x65B9, 0x6CD5]]"

definition punctuation :: "jschar list" where
  "punctuation = [46, 44, 59, 58, 33, 63, 39, 34, 40, 41]"

text \<open>The first alternative that matches at the front of the string, if any: the rest
  of the string after it.\<close>

fun stripAlt :: "jsstring list \<Rightarrow> jsstring \<Rightarrow> jsstring option" where
  "stripAlt [] s = None"
| "stripAlt (a # as) s =
     (if take (length a) s = a then Some (drop (length a) s) else stripAlt as s)"

text \<open>\<open>s.replace(/a1|a2|.../g, '')\<close>: a match is dropped and the scan goes on after it;
  where nothing (or only the empty string) matches, the code unit is copied.\<close>

function removeAlts :: "jsstring list \<Rightarrow> jsstring \<Rightarrow> jsstring" where
  "removeAlts alts [] = []"
| "removeAlts alts (c # cs) =
     (case stripAlt alts (c # cs) of
        None \<Rightarrow> c # removeAlts alts cs
      | Some rest \<Rightarrow>
          if length rest < length (c # cs) then removeAlts alts rest
          else c # removeAlts alts cs)"
  by pat_completeness auto
termination
  by (relation "measure (\<lambda>(alts, s). length s)") auto

definition normalizeTheme :: "(jsstring \<Rightarrow> jsstring) \<Rightarrow> jsstring \<Rightarrow> jsstring" where
  "normalizeTheme toLowerCase th =
     trim (filter (\<lambda>c. c \<notin> set punctuation) (removeAlts fillers (toLowerCase th)))"

text \<open>\<open>s.split(/\s+/)\<close>: the pieces between the runs of white space; a run at either
  end leaves an empty piece there, and the empty string gives one empty piece.\<close>

function splitWs :: "jsstring \<Rightarrow> jsstring list" where
  "splitWs [] = [[]]"
| "splitWs (c # cs) =
     (if isWhiteSpace c then [] # splitWs (dropWhile isWhiteSpace cs)
      else (case splitWs cs of
              w # ws \<Rightarrow> (c # w) # ws
            | [] \<Rightarrow> [[c]]))"
  by pat_completeness auto
termination
  by (relation "measure length") (auto intro!: le_imp_less_Suc length_dropWhile_le)

definition areSimilarThemes :: "(jsstring \<Rightarrow> jsstring) \<Rightarrow> jsstring \<Rightarrow> jsstring \<Rightarrow> bool" where
  "areSimilarThemes toLowerCase theme1 theme2 =
     (let normalized1 = normalizeTheme toLowerCase theme1;
          normalized2 = normalizeTheme toLowerCase theme2;
          words1 = splitWs normalized1;
          words2 = splitWs normalized2
      in if length words1 = 0 \<or> length words2 = 0 then False
         else (let commonWords = filter (\<lambda>word. word \<in> set words2) words1;
                   similarityRatio =
                     ddiv (dmul 2 (of_nat (length commonWords)))
                          (dadd (of_nat (length words1)) (of_nat (length words2)));
                   minWordCount = min (length words1) (length words2);
                   similarityThreshold = (if minWordCount \<le> 3 then dbl (7 / 10) else 1 / 2)
               in similarityThreshold \<le> similarityRatio))"

text \<open>The test of the \<open>if\<close> in the loop of \<open>mergeOverlappingThemes\<close>.\<close>

definition mergeCondition :: "(jsstring \<Rightarrow> jsstring) \<Rightarrow> ThemeEntry \<Rightarrow> ThemeEntry \<Rightarrow> bool" where
  "mergeCondition toLowerCase currentTheme th =
     (let currentEndTime = timeToSeconds (th_end currentTheme);
          nextStartTime = timeToSeconds (th_start th);
          similarThemes = areSimilarThemes toLowerCase (theme currentTheme) (theme th)
      in (dsub nextStartTime currentEndTime < 10 \<or> nextStartTime \<le> currentEndTime)
           \<and> similarThemes)"

text \<open>The \<open>for\<close> loop of \<open>mergeOverlappingThemes\<close> on the values of the entries:
  the themes still to visit, \<open>currentTheme\<close> (\<open>None\<close> is \<open>null\<close>) and \<open>mergedThemes\<close>.\<close>

fun mergeLoop ::
  "(jsstring \<Rightarrow> jsstring) \<Rightarrow> ThemeEntry list \<Rightarrow> ThemeEntry option \<Rightarrow> ThemeEntry list
     \<Rightarrow> ThemeEntry list" where
  "mergeLoop toLowerCase [] currentTheme mergedThemes =
     (case currentTheme of
        None \<Rightarrow> mergedThemes
      | Some c \<Rightarrow> mergedThemes @ [c])"
| "mergeLoop toLowerCase (th # rest) None mergedThemes =
     mergeLoop toLowerCase rest (Some th) mergedThemes"
| "mergeLoop toLowerCase (th # rest) (Some c) mergedThemes =
     (if mergeCondition toLowerCase c th
      then mergeLoop toLowerCase rest
             (Some (if timeToSeconds (th_end c) < timeToSeconds (th_end th)
                    then c\<lparr>th_end := th_end th\<rparr> else c))
             mergedThemes
      else mergeLoop toLowerCase rest (Some th) (mergedThemes @ [c]))"

text \<open>
  \<open>themes.sort(cmp)\<close> with \<open>cmp(a, b) = timeToSeconds(a.start) - timeToSeconds(b.start)\<close>:
  the difference of two numbers has the sign of their comparison, so the comparator is
  the order of the key, and the sort of ECMAScript, stable since ES2019, is the stable
  sort by that key.
\<close>

definition startKey :: "ThemeEntry \<Rightarrow> number" where
  "startKey th = timeToSeconds (th_start th)"

definition mergeOverlappingThemes ::
  "(jsstring \<Rightarrow> jsstring) \<Rightarrow> ThemeEntry list \<Rightarrow> ThemeEntry list" where
  "mergeOverlappingThemes toLowerCase themes =
     mergeLoop toLowerCase (sort_key startKey themes) None []"

subsection \<open>The same function on a store of objects\<close>

text \<open>
  \<open>mergeOverlappingThemes\<close> sorts the array it is given and assigns to a field of an
  object. What the caller can see of that needs the objects as the program has them: an
  entry is an object in a store, addressed by its index, and an array holds addresses.
  \<open>{ ...theme }\<close> allocates a new object at the end of the store. The function returns
  the contents of the argument array after the call, the returned array and the store.
\<close>

type_synonym ref = nat
type_synonym store = "ThemeEntry list"

fun mergeLoopS ::
  "(jsstring \<Rightarrow> jsstring) \<Rightarrow> ref list \<Rightarrow> ref option \<Rightarrow> ref list \<Rightarrow> store
     \<Rightarrow> ref list \<times> store" where
  "mergeLoopS toLowerCase [] currentTheme mergedThemes h =
     (case currentTheme of
        None \<Rightarrow> (mergedThemes, h)
      | Some c \<Rightarrow> (mergedThemes @ [c], h))"
| "mergeLoopS toLowerCase (th # rest) None mergedThemes h =
     mergeLoopS toLowerCase rest (Some (length h)) mergedThemes (h @ [h ! th])"
| "mergeLoopS toLowerCase (th # rest) (Some c) mergedThemes h =
     (if mergeCondition toLowerCase (h ! c) (h ! th)
      then mergeLoopS toLowerCase rest (Some c) mergedThemes
             (if timeToSeconds (th_end (h ! c)) < timeToSeconds (th_end (h ! th))
              then h[c := (h ! c)\<lparr>th_end := th_end (h ! th)\<rparr>] else h)
      else mergeLoopS toLowerCase rest (Some (length h)) (mergedThemes @ [c]) (h @ [h ! th]))"

definition mergeOverlappingThemesS ::
  "(jsstring \<Rightarrow> jsstring) \<Rightarrow> ref list \<Rightarrow> store \<Rightarrow> ref list \<times> ref list \<times> store" where
  "mergeOverlappingThemesS toLowerCase themes h =
     (let sorted = sort_key (\<lambda>r. startKey (h ! r)) themes;
          (mergedThemes, h') = mergeLoopS toLowerCase sorted None [] h
      in (sorted, mergedThemes, h'))"

section \<open>Silent-cut segments: \<open>src/services/video.ts\<close>\<close>

record silence =
  sil_start :: number
  sil_end :: number
  sil_duration :: number

record segment =
  seg_start :: number
  seg_end :: number

text \<open>The \<open>for\<close> loop of \<open>cutSilentParts\<close> over the silences, with \<open>segments\<close> and
  \<open>lastEnd\<close> as its state.\<close>

fun keepLoop ::
  "number \<Rightarrow> number \<Rightarrow> number \<Rightarrow> silence list \<Rightarrow> segment list \<Rightarrow> number
     \<Rightarrow> segment list \<times> number" where
  "keepLoop videoDuration padding minSegmentDuration [] segments lastEnd = (segments, lastEnd)"
| "keepLoop videoDuration padding minSegmentDuration (sil # rest) segments lastEnd =
     (let silenceStart = max 0 (dsub (sil_start sil) padding);
          silenceEnd = min videoDuration (dadd (sil_end sil) padding)
      in keepLoop videoDuration padding minSegmentDuration rest
           (if minSegmentDuration \<le> dsub silenceStart lastEnd
            then segments @ [\<lparr>seg_start = lastEnd, seg_end = silenceStart\<rparr>]
            else segments)
           silenceEnd)"

text \<open>The segments that \<open>cutSilentParts\<close> keeps, from the silences read from the file
  and the duration that the probe returns.\<close>

definition cutSilentParts_segments ::
  "silence list \<Rightarrow> number \<Rightarrow> number \<Rightarrow> number \<Rightarrow> segment list" where
  "cutSilentParts_segments silences videoDuration padding minSegmentDuration =
     (case keepLoop videoDuration padding minSegmentDuration silences [] 0 of
        (segments, lastEnd) \<Rightarrow>
          if minSegmentDuration \<le> dsub videoDuration lastEnd
          then segments @ [\<lparr>seg_start = lastEnd, seg_end = videoDuration\<rparr>]
          else segments)"

section \<open>Chunked extraction: \<open>processLargeSrt\<close> and \<open>splitAndProcessChunk\<close> (\<open>src/unnamed/part_001\<close>)\<close>

text \<open>The two tables of \<open>getModelMaxTokens\<close>; a model that is in neither gets the
  default of its provider. (A model is the name of a model, not of a property that every
  JavaScript object inherits.)\<close>

definition openaiModelLimits :: "(jsstring \<times> nat) list" where
  "openaiModelLimits =
     [(js ''gpt-3.5-turbo'', 16385), (js ''gpt-3.5-turbo-16k'', 16385), (js ''gpt-4'', 8192),
      (js ''gpt-4-32k'', 32768), (js ''gpt-4-turbo'', 128000)]"

definition googleModelLimits :: "(jsstring \<times> nat) list" where
  "googleModelLimits =
     [(js ''gemini-pro'', 32768), (js ''gemini-1.5-flash'', 1048576),
      (js ''gemini-1.5-pro'', 1048576)]"

definition getModelMaxTokens :: "jsstring \<Rightarrow> jsstring \<Rightarrow> nat" where
  "getModelMaxTokens model provider =
     (if provider = js ''google''
      then (case map_of googleModelLimits model of Some n \<Rightarrow> n | None \<Rightarrow> 32768)
      else (case map_of openaiModelLimits model of Some n \<Rightarrow> n | None \<Rightarrow> 16385))"

text \<open>
  \<open>subtitlesPerChunk\<close> as \<open>processLargeSrt\<close> computes it from the token limit of the
  model, \<open>srtContent.length\<close> and \<open>subtitles.length\<close>, for at least one subtitle (with
  none, the division is by zero and the loop that would use the result has nothing to
  do).
\<close>

definition subtitlesPerChunk :: "nat \<Rightarrow> nat \<Rightarrow> nat \<Rightarrow> nat" where
  "subtitlesPerChunk maxTokens contentLength subtitleCount =
     (let promptOverhead = 500;
          maxContentTokens = dsub (of_nat maxTokens) promptOverhead;
          averageSubtitleLength = ddiv (of_nat contentLength) (of_nat subtitleCount);
          averageSubtitleTokens = ddiv averageSubtitleLength 4
      in nat \<lfloor>ddiv (ddiv maxContentTokens averageSubtitleTokens) 4\<rfloor>)"

text \<open>
  The loop \<open>for (let i = 0; i < subtitles.length; i += chunkSize) chunks.push(...)\<close>
  of both functions. Nothing in the loop stops it when \<open>chunkSize\<close> is \<open>0\<close>: \<open>None\<close> is the run
  that never leaves the loop.
\<close>

partial_function (option) chunkLoop ::
  "subtitle list \<Rightarrow> nat \<Rightarrow> nat \<Rightarrow> jsstring list \<Rightarrow> jsstring list option" where
  "chunkLoop subtitles chunkSize i chunks =
     (if i < length subtitles
      then chunkLoop subtitles chunkSize (i + chunkSize)
             (chunks @ [formatSubtitlesToSrt (take chunkSize (drop i subtitles))])
      else Some chunks)"

text \<open>Lines 307 to 328 of \<open>processLargeSrt\<close>: the chunks it sends to the extractor.\<close>

definition processLargeSrt_chunks :: "jsstring \<Rightarrow> jsstring \<Rightarrow> jsstring \<Rightarrow> jsstring list option" where
  "processLargeSrt_chunks srtContent model provider =
     (let subtitles = parseSrt srtContent;
          maxTokens = getModelMaxTokens model provider
      in if subtitles = [] then Some []
         else chunkLoop subtitles
                (subtitlesPerChunk maxTokens (length srtContent) (length subtitles)) 0 [])"

text \<open>
  \<open>extractThemesWithAI\<close> calls a service over the network. It is a parameter of the
  model: a step on the state \<open>'w\<close> of the world outside that, given a chunk, either
  throws an \<open>Error\<close> (\<open>Inl\<close> of its message) or returns themes.
\<close>

type_synonym 'w extractor = "'w \<Rightarrow> jsstring \<Rightarrow> (jsstring + ThemeEntry list) \<times> 'w"

definition FORCE_SPLIT :: jsstring where
  "FORCE_SPLIT = js ''FORCE_SPLIT''"

text \<open>The loop of \<open>splitAndProcessChunk\<close> over the sub-chunks.\<close>

fun subChunkLoop ::
  "'w extractor \<Rightarrow> jsstring list \<Rightarrow> ThemeEntry list \<Rightarrow> 'w \<Rightarrow> (jsstring + ThemeEntry list) \<times> 'w"
  where
  "subChunkLoop ext [] results w = (Inr results, w)"
| "subChunkLoop ext (subChunk # rest) results w =
     (case ext w subChunk of
        (Inr subThemes, w') \<Rightarrow> subChunkLoop ext rest (results @ subThemes) w'
      | (Inl message, w') \<Rightarrow>
          if message = FORCE_SPLIT then subChunkLoop ext rest results w'
          else (Inl message, w'))"

definition subChunkSize :: "nat \<Rightarrow> nat" where
  "subChunkSize subtitleCount = max 5 (nat \<lceil>ddiv (of_nat subtitleCount) 4\<rceil>)"

definition splitAndProcessChunk ::
  "'w extractor \<Rightarrow> jsstring \<Rightarrow> 'w \<Rightarrow> ((jsstring + ThemeEntry list) \<times> 'w) option" where
  "splitAndProcessChunk ext chunk w =
     (let subtitles = parseSrt chunk
      in (case chunkLoop subtitles (subChunkSize (length subtitles)) 0 [] of
            None \<Rightarrow> None
          | Some subChunks \<Rightarrow> Some (subChunkLoop ext subChunks [] w)))"

text \<open>The loop of \<open>processLargeSrt\<close> over the chunks, and the function.\<close>

fun processChunks ::
  "'w extractor \<Rightarrow> jsstring list \<Rightarrow> ThemeEntry list \<Rightarrow> 'w
     \<Rightarrow> ((jsstring + ThemeEntry list) \<times> 'w) option" where
  "processChunks ext [] allThemes w = Some (Inr allThemes, w)"
| "processChunks ext (chunk # rest) allThemes w =
     (case ext w chunk of
        (Inr chunkThemes, w') \<Rightarrow> processChunks ext rest (allThemes @ chunkThemes) w'
      | (Inl message, w') \<Rightarrow>
          if message = FORCE_SPLIT \<and> 1000 < length chunk
          then (case splitAndProcessChunk ext chunk w' of
                  None \<Rightarrow> None
                | Some (Inr subChunks, w'') \<Rightarrow> processChunks ext rest (allThemes @ subChunks) w''
                | Some (Inl e, w'') \<Rightarrow> Some (Inl e, w''))
          else Some (Inl message, w'))"

definition processLargeSrt ::
  "(jsstring \<Rightarrow> jsstring) \<Rightarrow> 'w extractor \<Rightarrow> jsstring \<Rightarrow> jsstring \<Rightarrow> jsstring \<Rightarrow> 'w
     \<Rightarrow> ((jsstring + ThemeEntry list) \<times> 'w) option" where
  "processLargeSrt toLowerCase ext srtContent model provider w =
     (case processLargeSrt_chunks srtContent model provider of
        None \<Rightarrow> None
      | Some chunks \<Rightarrow>
          (case processChunks ext chunks [] w of
             None \<Rightarrow> None
           | Some (Inr allThemes, w') \<Rightarrow>
               Some (Inr (mergeOverlappingThemes toLowerCase allThemes), w')
           | Some (Inl e, w') \<Rightarrow> Some (Inl e, w')))"

section \<open>Notions used by the properties\<close>

text \<open>\<open>HH:MM:SS\<close>: eight code units, digits around two colons, and nothing else.\<close>

definition hmsAtoms :: "atom list" where
  "hmsAtoms = [D, D, C 58, D, D, C 58, D, D]"

definition isHMS :: "jsstring \<Rightarrow> bool" where
  "isHMS s \<longleftrightarrow> length s = 8 \<and> matchesAt hmsAtoms s"

text \<open>The index line of an emitted cue: its text up to the first line feed.\<close>

definition indexLine :: "jsstring \<Rightarrow> jsstring" where
  "indexLine cue = takeWhile (\<lambda>c. c \<noteq> NL) cue"

text \<open>What the specification says \<open>format\<close> does: the cues numbered from 1 in the
  order of the records, whatever their \<open>id\<close>.\<close>

definition format_renumbered_spec :: "subtitle list \<Rightarrow> jsstring" where
  "format_renumbered_spec subtitles =
     joinWith [NL]
       (map (\<lambda>(i, sub). formatCue (sub\<lparr>sub_id := int i + 1\<rparr>)) (enumerate 0 subtitles))"

text \<open>The triple of a cue that the round trip is about.\<close>

definition triple :: "subtitle \<Rightarrow> jsstring \<times> jsstring \<times> jsstring" where
  "triple sub = (sub_start sub, sub_end sub, sub_text sub)"

text \<open>The cue block of the examples: one cue with millisecond timestamps.\<close>

definition oneCue :: jsstring where
  "oneCue = js ''1'' @ [NL] @ js ''00:00:01,000 --> 00:00:02,500'' @ [NL] @ js ''Hello'' @ [NL]"

text \<open>Two entries that the loop of \<open>mergeOverlappingThemes\<close> keeps apart when
  the second follows the first.\<close>

definition noMerge :: "(jsstring \<Rightarrow> jsstring) \<Rightarrow> ThemeEntry \<Rightarrow> ThemeEntry \<Rightarrow> bool" where
  "noMerge lc a b \<longleftrightarrow> \<not> mergeCondition lc a b"

text \<open>
  The state of the loop of \<open>mergeOverlappingThemes\<close> on the store, for a caller whose
  objects are the first \<open>n0\<close> of the store: \<open>currentTheme\<close> and the entries of
  \<open>mergedThemes\<close> are distinct objects allocated by the loop.
\<close>

definition storeInv :: "nat \<Rightarrow> store \<Rightarrow> ref option \<Rightarrow> ref list \<Rightarrow> bool" where
  "storeInv n0 h cur merged \<longleftrightarrow>
     n0 \<le> length h \<and> list_all (\<lambda>r. n0 \<le> r \<and> r < length h) merged \<and> distinct merged
     \<and> (case cur of None \<Rightarrow> True | Some c \<Rightarrow> n0 \<le> c \<and> c < length h \<and> c \<notin> set merged)"

text \<open>A store of two entries, the later one first.\<close>

definition exampleStore :: store where
  "exampleStore =
     [\<lparr>th_start = js ''00:00:05,000'', th_end = js ''00:00:09,000'', theme = js ''b''\<rparr>,
      \<lparr>th_start = js ''00:00:01,000'', th_end = js ''00:00:04,000'', theme = js ''a''\<rparr>]"

text \<open>The consecutive runs of \<open>n\<close> elements of a list, the last one possibly shorter:
  what the chunk loop slices for a positive chunk size.\<close>

function slices :: "nat \<Rightarrow> 'a list \<Rightarrow> 'a list list" where
  "slices n xs = (if n = 0 \<or> xs = [] then [] else take n xs # slices n (drop n xs))"
  by pat_completeness auto
termination
  by (relation "measure (\<lambda>(n, xs). length xs)") auto

text \<open>The sub-chunks of \<open>splitAndProcessChunk\<close>.\<close>

definition subChunksOf :: "jsstring \<Rightarrow> jsstring list" where
  "subChunksOf chunk =
     map formatSubtitlesToSrt
       (slices (subChunkSize (length (parseSrt chunk))) (parseSrt chunk))"

text \<open>
  The outcomes of the extractor on a list of chunks, called on one after the other; an
  outcome is fatal when it is an error other than \<open>FORCE_SPLIT\<close>; what an outcome
  contributes to the result is its themes, nothing for an error.
\<close>

fun runAll :: "'w extractor \<Rightarrow> jsstring list \<Rightarrow> 'w \<Rightarrow> (jsstring + ThemeEntry list) list" where
  "runAll ext [] w = []"
| "runAll ext (c # cs) w = (case ext w c of (r, w') \<Rightarrow> r # runAll ext cs w')"

definition fatal :: "jsstring + ThemeEntry list \<Rightarrow> bool" where
  "fatal r = (case r of Inl message \<Rightarrow> message \<noteq> FORCE_SPLIT | Inr ts \<Rightarrow> False)"

definition kept :: "jsstring + ThemeEntry list \<Rightarrow> ThemeEntry list" where
  "kept r = (case r of Inl message \<Rightarrow> [] | Inr ts \<Rightarrow> ts)"

text \<open>A block of six cues, which \<open>splitAndProcessChunk\<close> cuts into two sub-chunks, and
  an extractor that answers its first call with the capacity error and every later call
  with one theme, the state of the world being the number of calls.\<close>

definition cueText :: "string \<Rightarrow> jsstring" where
  "cueText n =
     js n @ [NL] @ js ''00:00:01,000 --> 00:00:02,500'' @ [NL] @ js ''Hello'' @ [NL] @ [NL]"

definition sixCues :: jsstring where
  "sixCues =
     cueText ''1'' @ cueText ''2'' @ cueText ''3'' @ cueText ''4'' @ cueText ''5'' @ cueText ''6''"

definition oneTheme :: ThemeEntry where
  "oneTheme = \<lparr>th_start = js ''00:00:01,000'', th_end = js ''00:00:02,000'', theme = js ''a''\<rparr>"

definition firstFailsExt :: "nat extractor" where
  "firstFailsExt w chunk = (if w = 0 then Inl FORCE_SPLIT else Inr [oneTheme], Suc w)"

text \<open>A block of one cue whose text is 40000 letters \<open>a\<close>.\<close>

definition longCue :: jsstring where
  "longCue = js ''1'' @ [NL] @ js ''00:00:01,000 --> 00:00:02,000'' @ [NL] @ replicate 40000 97"

section \<open>Evaluation\<close>

text \<open>The definitions that the simplifier unfolds to run the string functions on a
  literal.\<close>

lemmas string_defs =
  js_def NL_def isWhiteSpace_def isDigit_def trim_def parseInt_def decVal_def hexVal_def
  hexDigit_def tsAtoms_def pairAtoms_def allDigits_def isTextLine_def numToString_def Let_def

lemmas srt_defs = parseSrt_def formatCue_def formatSubtitlesToSrt_def

section \<open>Properties of \<open>parseSrt\<close> and \<open>formatSubtitlesToSrt\<close>\<close>

lemma search_Some_matches: "search p s = Some m \<Longrightarrow> matchesAt p m"
  by (induction s) (auto split: if_splits)

lemma matchesAt_append:
  "matchesAt (p @ q) s \<Longrightarrow> length p = n \<Longrightarrow>
     matchesAt p (take n s) \<and> length (take n s) = n \<and> matchesAt q (drop n s)"
  by (induction p s arbitrary: n rule: matchesAt.induct) auto

lemma pair_start:
  assumes "matchesAt pairAtoms m"
  shows "isHMS (take 8 m)"
proof -
  have "pairAtoms = hmsAtoms @ ([C 44, D, D, D] @ map C (js '' --> '') @ tsAtoms)"
    by (simp add: pairAtoms_def tsAtoms_def hmsAtoms_def)
  with assms have "matchesAt (hmsAtoms @ ([C 44, D, D, D] @ map C (js '' --> '') @ tsAtoms)) m"
    by simp
  from matchesAt_append [OF this, of 8] show ?thesis
    by (simp add: isHMS_def hmsAtoms_def)
qed

lemma pair_end:
  assumes "matchesAt pairAtoms m"
  shows "isHMS (take 8 (drop 17 m))"
proof -
  have "pairAtoms = (tsAtoms @ map C (js '' --> '')) @ (hmsAtoms @ [C 44, D, D, D])"
    by (simp add: pairAtoms_def tsAtoms_def hmsAtoms_def)
  with assms have "matchesAt ((tsAtoms @ map C (js '' --> '')) @ (hmsAtoms @ [C 44, D, D, D])) m"
    by simp
  from matchesAt_append [OF this, of 17]
  have "matchesAt (hmsAtoms @ [C 44, D, D, D]) (drop 17 m)"
    by (simp add: tsAtoms_def js_def)
  from matchesAt_append [OF this, of 8] show ?thesis
    by (simp add: isHMS_def hmsAtoms_def)
qed

lemma parseLoop_HMS:
  "\<forall>c \<in> set acc. isHMS (sub_start c) \<and> isHMS (sub_end c) \<Longrightarrow>
   \<forall>c \<in> set (parseLoop ls acc). isHMS (sub_start c) \<and> isHMS (sub_end c)"
proof (induction ls acc rule: parseLoop.induct)
  case (1 subtitles)
  then show ?case by simp
next
  case (2 l ls subtitles)
  show ?case
  proof (cases "trim l = []")
    case True
    with "2.IH"(1) "2.prems" show ?thesis by simp
  next
    case nb: False
    show ?thesis
    proof (cases "parseInt l")
      case None
      with nb "2.IH"(2) "2.prems" show ?thesis by simp
    next
      case (Some n)
      show ?thesis
      proof (cases ls)
        case Nil
        with nb Some "2.prems" show ?thesis by simp
      next
        case (Cons t rest)
        show ?thesis
        proof (cases "search pairAtoms t")
          case None
          with nb Some Cons "2.IH"(3) "2.prems" show ?thesis by simp
        next
          case sm: (Some m)
          have mm: "matchesAt pairAtoms m"
            using sm by (rule search_Some_matches)
          let ?cue = "\<lparr>sub_id = n, sub_start = take 8 m, sub_end = take 8 (drop 17 m),
                      sub_text = trim (concat (map (\<lambda>x. x @ [NL]) (takeWhile isTextLine rest)))\<rparr>"
          have "\<forall>c \<in> set (subtitles @ [?cue]). isHMS (sub_start c) \<and> isHMS (sub_end c)"
            using "2.prems" pair_start [OF mm] pair_end [OF mm] by simp
          then have "\<forall>c \<in> set (parseLoop (dropWhile isTextLine rest) (subtitles @ [?cue])).
                       isHMS (sub_start c) \<and> isHMS (sub_end c)"
            using "2.IH"(4) [OF nb Some Cons sm] by blast
          with nb Some Cons sm show ?thesis by simp
        qed
      qed
    qed
  qed
qed

lemma parseSrt_oneCue:
  "parseSrt oneCue =
     [\<lparr>sub_id = 1, sub_start = js ''00:00:01'', sub_end = js ''00:00:02'',
       sub_text = js ''Hello''\<rparr>]"
  by (simp add: oneCue_def srt_defs string_defs)

lemma format_parse_oneCue:
  "formatSubtitlesToSrt (parseSrt oneCue) =
     js ''1'' @ [NL] @ js ''00:00:01 --> 00:00:02'' @ [NL] @ js ''Hello'' @ [NL]"
  unfolding parseSrt_oneCue by (simp add: srt_defs string_defs)

text \<open>
  C9. Every cue that \<open>parseSrt\<close> returns has a \<open>start\<close> and an \<open>end\<close> of the shape
  \<open>HH:MM:SS\<close>, eight code units: the millisecond field of both endpoints of the
  timestamp line is not in them.
\<close>

theorem parseSrt_drops_milliseconds:
  "c \<in> set (parseSrt srtContent) \<Longrightarrow> isHMS (sub_start c) \<and> isHMS (sub_end c)"
  using parseLoop_HMS [of "[]" "splitOn NL srtContent"] by (simp add: parseSrt_def)

theorem parseSrt_drops_milliseconds_witness:
  "\<lparr>sub_id = 1, sub_start = js ''00:00:01'', sub_end = js ''00:00:02'',
     sub_text = js ''Hello''\<rparr> \<in> set (parseSrt oneCue)
   \<and> isHMS (js ''00:00:01'') \<and> isHMS (js ''00:00:02'')"
proof -
  let ?c = "\<lparr>sub_id = 1, sub_start = js ''00:00:01'', sub_end = js ''00:00:02'',
              sub_text = js ''Hello''\<rparr>"
  have h: "?c \<in> set (parseSrt oneCue)"
    unfolding parseSrt_oneCue by simp
  from parseSrt_drops_milliseconds [OF h] h show ?thesis
    by simp
qed

lemma NL_notin_digitsOf: "NL \<notin> set (digitsOf n)"
proof (induction n rule: digitsOf.induct)
  case (1 n)
  show ?case
  proof (cases "n < 10")
    case True
    then show ?thesis by (simp add: NL_def)
  next
    case False
    with 1 have "NL \<notin> set (digitsOf (n div 10))" by simp
    with False show ?thesis
      by (subst digitsOf.simps) (simp add: NL_def)
  qed
qed

lemma NL_notin_numToString: "NL \<notin> set (numToString i)"
  using NL_notin_digitsOf by (simp add: numToString_def NL_def)

lemma indexLine_formatCue: "indexLine (formatCue sub) = numToString (sub_id sub)"
proof -
  have "takeWhile (\<lambda>c. c \<noteq> NL) (numToString (sub_id sub) @ NL # rest)
          = numToString (sub_id sub)" for rest
    using NL_notin_numToString [of "sub_id sub"] by (simp add: takeWhile_append)
  then show ?thesis
    by (simp add: indexLine_def formatCue_def)
qed

text \<open>
  C1, as the code has it. \<open>formatSubtitlesToSrt\<close> does not number the cues: it joins one
  cue per record, in order, and the index line of each cue is the \<open>id\<close> of its record in
  decimal.
\<close>

theorem formatSubtitlesToSrt_keeps_ids:
  "formatSubtitlesToSrt subtitles = joinWith [NL] (map formatCue subtitles)
   \<and> map (\<lambda>sub. indexLine (formatCue sub)) subtitles
       = map (\<lambda>sub. numToString (sub_id sub)) subtitles"
  by (simp add: formatSubtitlesToSrt_def indexLine_formatCue)

text \<open>C1, as the claim states it, fails on a single record whose \<open>id\<close> is \<open>7\<close>: the
  cue comes out under the index \<open>7\<close>, and the renumbered text starts with \<open>1\<close>.\<close>

theorem formatSubtitlesToSrt_renumber_counterexample:
  "indexLine (formatSubtitlesToSrt
      [\<lparr>sub_id = 7, sub_start = js ''00:00:01'', sub_end = js ''00:00:02'',
        sub_text = js ''a''\<rparr>]) = js ''7''
   \<and> formatSubtitlesToSrt
        [\<lparr>sub_id = 7, sub_start = js ''00:00:01'', sub_end = js ''00:00:02'',
          sub_text = js ''a''\<rparr>]
       \<noteq> format_renumbered_spec
           [\<lparr>sub_id = 7, sub_start = js ''00:00:01'', sub_end = js ''00:00:02'',
             sub_text = js ''a''\<rparr>]"
  by (simp add: indexLine_def format_renumbered_spec_def srt_defs string_defs)

text \<open>
  C2. The round trip loses every cue of a well-formed block: \<open>parseSrt\<close> keeps
  \<open>HH:MM:SS\<close> of each timestamp, \<open>formatSubtitlesToSrt\<close> writes that back, and the
  timestamp line it writes has no millisecond field for \<open>parseSrt\<close> to recognise. On
  the block of one cue the second parse returns nothing, so the triples differ.
\<close>

theorem parse_format_roundtrip_fails:
  "parseSrt oneCue =
     [\<lparr>sub_id = 1, sub_start = js ''00:00:01'', sub_end = js ''00:00:02'',
       sub_text = js ''Hello''\<rparr>]
   \<and> parseSrt (formatSubtitlesToSrt (parseSrt oneCue)) = []
   \<and> mset (map triple (parseSrt (formatSubtitlesToSrt (parseSrt oneCue))))
       \<noteq> mset (map triple (parseSrt oneCue))"
proof -
  have "parseSrt (formatSubtitlesToSrt (parseSrt oneCue)) = []"
    unfolding format_parse_oneCue by (simp add: srt_defs string_defs)
  then show ?thesis
    by (simp add: parseSrt_oneCue)
qed

section \<open>Properties of \<open>adjustSrtTimestamps\<close>\<close>

text \<open>
  C7. With offset \<open>0\<close> the function is not the identity on \<open>00:00:01,001\<close>: the sum
  \<open>1 + 1 / 1000\<close> is the binary64 number just below \<open>1.001\<close>, its fraction times
  \<open>1000\<close> is below \<open>1\<close>, and \<open>Math.floor\<close> makes the millisecond field \<open>000\<close>.
\<close>

theorem adjustSrtTimestamps_zero_not_identity:
  "adjustSrtTimestamps (js ''00:00:01,001 --> 00:00:02,000'') 0
     = js ''00:00:01,000 --> 00:00:02,000''
   \<and> adjustSrtTimestamps (js ''00:00:01,001 --> 00:00:02,000'') 0
       \<noteq> js ''00:00:01,001 --> 00:00:02,000''"
proof -
  have "adjustSrtTimestamps (js ''00:00:01,001 --> 00:00:02,000'') 0
          = js ''00:00:01,000 --> 00:00:02,000''"
    by code_simp
  then show ?thesis
    by (simp add: js_def)
qed

section \<open>Properties of the silent-cut segments\<close>

text \<open>
  C8. For the silences \<open>[10, 12]\<close> and \<open>[40, 42]\<close>, a duration of \<open>50\<close>, a padding of
  \<open>1\<close> and a minimal segment of \<open>0.3\<close>, the segments kept are \<open>[0, 9]\<close>, \<open>[13, 39]\<close>
  and \<open>[43, 50]\<close>, in that order.
\<close>

theorem cutSilentParts_example:
  "cutSilentParts_segments
     [\<lparr>sil_start = 10, sil_end = 12, sil_duration = 2\<rparr>,
      \<lparr>sil_start = 40, sil_end = 42, sil_duration = 2\<rparr>]
     50 1 (dbl (3 / 10))
   = [\<lparr>seg_start = 0, seg_end = 9\<rparr>, \<lparr>seg_start = 13, seg_end = 39\<rparr>,
      \<lparr>seg_start = 43, seg_end = 50\<rparr>]"
  by code_simp

section \<open>Properties of \<open>areSimilarThemes\<close> and \<open>mergeOverlappingThemes\<close>\<close>

lemma normalizeTheme_empty: "normalizeTheme asciiLower [] = []"
  by (simp add: normalizeTheme_def asciiLower_def trim_def)

lemma normalizeTheme_fillers:
  "normalizeTheme asciiLower [0x306B, 0x3064, 0x3044, 0x3066] = []"
  "normalizeTheme asciiLower [0x3068, 0x306F] = []"
  by (simp_all add: normalizeTheme_def asciiLower_def trim_def fillers_def)

lemma similar_of_empty_words:
  "normalizeTheme lc a = [] \<Longrightarrow> normalizeTheme lc b = [] \<Longrightarrow> areSimilarThemes lc a b"
proof -
  assume "normalizeTheme lc a = []" "normalizeTheme lc b = []"
  moreover have "dbl (7 / 10) \<le> ddiv (dmul 2 1) (dadd 1 1)"
    by code_simp
  ultimately show ?thesis
    by (simp add: areSimilarThemes_def)
qed

text \<open>
  C5. Two labels that normalise to the empty string are judged similar: \<open>split\<close> gives
  one empty word for each, never no word, so the test for an empty side does not fire and
  the one common word makes the ratio \<open>1\<close>. It is so for two empty labels and for the two
  filler phrases \<open>ni tsuite\<close> and \<open>to wa\<close>.
\<close>

theorem areSimilarThemes_empty_labels_similar:
  "areSimilarThemes asciiLower [] []
   \<and> areSimilarThemes asciiLower [0x306B, 0x3064, 0x3044, 0x3066] [0x3068, 0x306F]"
  using similar_of_empty_words [OF normalizeTheme_empty normalizeTheme_empty]
    similar_of_empty_words [OF normalizeTheme_fillers]
  by simp

lemma mergeLoop_acc: "mergeLoop lc ts cur merged = merged @ mergeLoop lc ts cur []"
proof (induction ts arbitrary: cur merged)
  case Nil
  then show ?case by (cases cur) simp_all
next
  case (Cons th rest)
  show ?case
  proof (cases cur)
    case None
    then show ?thesis using Cons.IH [of "Some th" merged] by simp
  next
    case (Some c)
    show ?thesis
    proof (cases "mergeCondition lc c th")
      case True
      with Some show ?thesis
        using Cons.IH [of _ merged] by simp
    next
      case False
      have "mergeLoop lc rest (Some th) (merged @ [c]) = (merged @ [c]) @ mergeLoop lc rest (Some th) []"
        by (rule Cons.IH)
      moreover have "mergeLoop lc rest (Some th) [c] = [c] @ mergeLoop lc rest (Some th) []"
        by (rule Cons.IH)
      ultimately show ?thesis using Some False by simp
    qed
  qed
qed

lemma mergeCondition_next_cong:
  "th_start b = th_start b' \<Longrightarrow> theme b = theme b' \<Longrightarrow>
     mergeCondition lc a b = mergeCondition lc a b'"
  by (simp add: mergeCondition_def)

lemma mergeLoop_step_merge:
  "mergeCondition lc c th \<Longrightarrow>
     mergeLoop lc (th # rest) (Some c) [] =
     mergeLoop lc rest (Some (if timeToSeconds (th_end c) < timeToSeconds (th_end th)
                              then c\<lparr>th_end := th_end th\<rparr> else c)) []"
  by simp

lemma mergeLoop_step_new:
  "\<not> mergeCondition lc c th \<Longrightarrow>
     mergeLoop lc (th # rest) (Some c) [] = c # mergeLoop lc rest (Some th) []"
  using mergeLoop_acc [of lc rest "Some th" "[c]"] by simp

lemma mergeLoop_head:
  "mergeLoop lc ts (Some c) [] \<noteq> []
   \<and> th_start (hd (mergeLoop lc ts (Some c) [])) = th_start c
   \<and> theme (hd (mergeLoop lc ts (Some c) [])) = theme c"
proof (induction ts arbitrary: c)
  case Nil
  show ?case by simp
next
  case (Cons th rest)
  show ?case
  proof (cases "mergeCondition lc c th")
    case True
    show ?thesis
      unfolding mergeLoop_step_merge [OF True]
      using Cons.IH [of "c\<lparr>th_end := th_end th\<rparr>"] Cons.IH [of c]
      by (simp split: if_splits)
  next
    case False
    show ?thesis
      unfolding mergeLoop_step_new [OF False] by simp
  qed
qed

lemma mergeLoop_starts:
  "th_start ` set (mergeLoop lc ts (Some c) []) \<subseteq> th_start ` set (c # ts)"
proof (induction ts arbitrary: c)
  case Nil
  show ?case by simp
next
  case (Cons th rest)
  show ?case
  proof (cases "mergeCondition lc c th")
    case True
    have "th_start ` set (mergeLoop lc (th # rest) (Some c) []) \<subseteq> th_start ` set (c # rest)"
      unfolding mergeLoop_step_merge [OF True]
      using Cons.IH [of "c\<lparr>th_end := th_end th\<rparr>"] Cons.IH [of c]
      by (simp split: if_splits)
    moreover have "th_start ` set (c # rest) \<subseteq> th_start ` set (c # th # rest)"
      by auto
    ultimately show ?thesis
      by (rule subset_trans)
  next
    case False
    have "th_start ` set (mergeLoop lc rest (Some th) []) \<subseteq> th_start ` set (th # rest)"
      by (rule Cons.IH)
    then show ?thesis
      unfolding mergeLoop_step_new [OF False] by auto
  qed
qed

lemma mergeLoop_noMerge:
  "successively (noMerge lc) (mergeLoop lc ts (Some c) [])"
proof (induction ts arbitrary: c)
  case Nil
  show ?case by simp
next
  case (Cons th rest)
  show ?case
  proof (cases "mergeCondition lc c th")
    case True
    show ?thesis
      unfolding mergeLoop_step_merge [OF True] by (rule Cons.IH)
  next
    case False
    let ?r = "mergeLoop lc rest (Some th) []"
    have hd: "?r \<noteq> []" "th_start (hd ?r) = th_start th" "theme (hd ?r) = theme th"
      using mergeLoop_head [of lc rest th] by simp_all
    have "noMerge lc c (hd ?r)"
      using False mergeCondition_next_cong [OF hd(2) hd(3), of lc c] by (simp add: noMerge_def)
    moreover have "successively (noMerge lc) ?r"
      by (rule Cons.IH)
    ultimately have "successively (noMerge lc) (c # ?r)"
      using hd(1) by (cases ?r) simp_all
    then show ?thesis
      unfolding mergeLoop_step_new [OF False] .
  qed
qed

lemma mergeLoop_sorted:
  "sorted (map startKey (c # ts)) \<Longrightarrow> sorted (map startKey (mergeLoop lc ts (Some c) []))"
proof (induction ts arbitrary: c)
  case Nil
  show ?case by simp
next
  case (Cons th rest)
  show ?case
  proof (cases "mergeCondition lc c th")
    case True
    let ?c' = "if timeToSeconds (th_end c) < timeToSeconds (th_end th)
               then c\<lparr>th_end := th_end th\<rparr> else c"
    have "startKey ?c' = startKey c"
      by (simp add: startKey_def)
    with Cons.prems have "sorted (map startKey (?c' # rest))"
      by simp
    then show ?thesis
      unfolding mergeLoop_step_merge [OF True] by (rule Cons.IH)
  next
    case False
    let ?r = "mergeLoop lc rest (Some th) []"
    from Cons.prems have le: "\<forall>x \<in> set (th # rest). startKey c \<le> startKey x"
      and st: "sorted (map startKey (th # rest))"
      by simp_all
    have "\<forall>y \<in> set ?r. startKey c \<le> startKey y"
    proof
      fix y
      assume "y \<in> set ?r"
      then have "th_start y \<in> th_start ` set (th # rest)"
        using mergeLoop_starts [of lc rest th] by blast
      then obtain x where x: "x \<in> set (th # rest)" and e: "th_start y = th_start x"
        by (elim imageE) simp
      from le x have "startKey c \<le> startKey x"
        by blast
      with e show "startKey c \<le> startKey y"
        by (simp add: startKey_def)
    qed
    moreover have "sorted (map startKey ?r)"
      using st by (rule Cons.IH)
    ultimately have "sorted (map startKey (c # ?r))"
      by simp
    then show ?thesis
      unfolding mergeLoop_step_new [OF False] .
  qed
qed

lemma mergeLoop_fixed:
  "successively (noMerge lc) (c # ts) \<Longrightarrow> mergeLoop lc ts (Some c) [] = c # ts"
proof (induction ts arbitrary: c)
  case Nil
  show ?case by simp
next
  case (Cons th rest)
  then have nm: "\<not> mergeCondition lc c th" and r: "successively (noMerge lc) (th # rest)"
    by (simp_all add: noMerge_def)
  have "mergeLoop lc rest (Some th) [c] = [c] @ mergeLoop lc rest (Some th) []"
    by (rule mergeLoop_acc)
  with nm Cons.IH [OF r] show ?case by simp
qed

lemma mergeLoop_None: "mergeLoop lc ts None [] = (case ts of [] \<Rightarrow> [] | t # rest \<Rightarrow> mergeLoop lc rest (Some t) [])"
  by (cases ts) simp_all

lemma merge_result:
  assumes "sorted (map startKey ts)"
  shows "sorted (map startKey (mergeLoop lc ts None [])) \<and> successively (noMerge lc) (mergeLoop lc ts None [])"
proof (cases ts)
  case Nil
  then show ?thesis by simp
next
  case (Cons t rest)
  with assms have "sorted (map startKey (t # rest))" by simp
  from mergeLoop_sorted [OF this, of lc] mergeLoop_noMerge [of lc rest t] Cons
  show ?thesis by simp
qed

lemma merge_fixed:
  assumes "sorted (map startKey ys)" "successively (noMerge lc) ys"
  shows "mergeOverlappingThemes lc ys = ys"
proof -
  have "sort_key startKey ys = ys"
    using assms(1) by (rule sort_key_id_if_sorted)
  moreover have "mergeLoop lc ys None [] = ys"
  proof (cases ys)
    case Nil
    then show ?thesis by simp
  next
    case (Cons t rest)
    with mergeLoop_fixed [of lc t rest] assms(2) show ?thesis by simp
  qed
  ultimately show ?thesis by (simp add: mergeOverlappingThemes_def)
qed

text \<open>
  C6. \<open>mergeOverlappingThemes\<close> is idempotent: merging the merged sequence again gives
  the merged sequence, for every input sequence (and every case conversion).
\<close>

theorem mergeOverlappingThemes_idempotent:
  "mergeOverlappingThemes toLowerCase (mergeOverlappingThemes toLowerCase themes)
     = mergeOverlappingThemes toLowerCase themes"
proof -
  have "sorted (map startKey (sort_key startKey themes))"
    by simp
  from merge_result [OF this, of toLowerCase]
  have "sorted (map startKey (mergeOverlappingThemes toLowerCase themes))"
    and "successively (noMerge toLowerCase) (mergeOverlappingThemes toLowerCase themes)"
    by (simp_all add: mergeOverlappingThemes_def)
  then show ?thesis
    by (rule merge_fixed)
qed

subsection \<open>\<open>mergeOverlappingThemes\<close> on the store\<close>

lemma map_nth_update:
  "c \<notin> set rs \<Longrightarrow> map ((!) (h[c := v])) rs = map ((!) h) rs"
  by (induction rs) auto

lemma map_nth_snoc:
  "list_all (\<lambda>r. r < length h) rs \<Longrightarrow> map ((!) (h @ [v])) rs = map ((!) h) rs"
  by (induction rs) (auto simp: nth_append)

lemma list_all_weaken: "list_all P xs \<Longrightarrow> (\<And>x. P x \<Longrightarrow> Q x) \<Longrightarrow> list_all Q xs"
  by (induction xs) auto

lemma storeInv_alloc:
  assumes "storeInv n0 h cur merged"
  shows "storeInv n0 (h @ [v]) (Some (length h)) (case cur of None \<Rightarrow> merged | Some c \<Rightarrow> merged @ [c])"
proof -
  from assms have a: "n0 \<le> length h" "list_all (\<lambda>r. n0 \<le> r \<and> r < length h) merged" "distinct merged"
    by (simp_all add: storeInv_def)
  have b: "list_all (\<lambda>r. n0 \<le> r \<and> r < length (h @ [v])) merged"
    using a(2) by (rule list_all_weaken) simp
  have c: "length h \<notin> set merged"
    using a(2) by (auto simp: list_all_iff)
  show ?thesis
  proof (cases cur)
    case None
    with a b c show ?thesis by (simp add: storeInv_def)
  next
    case (Some x)
    with assms have "n0 \<le> x" "x < length h" "x \<notin> set merged"
      by (simp_all add: storeInv_def)
    with Some a b c show ?thesis by (simp add: storeInv_def)
  qed
qed

lemma storeInv_update:
  assumes "storeInv n0 h (Some c) merged"
  shows "storeInv n0 (h[c := v]) (Some c) merged"
  using assms by (simp add: storeInv_def)

lemma mergeLoopS_correct:
  assumes "list_all (\<lambda>r. r < n0) ts" "storeInv n0 h cur merged"
    and "mergeLoopS lc ts cur merged h = (m', h')"
  shows "(\<forall>r<n0. h' ! r = h ! r) \<and> list_all (\<lambda>r. n0 \<le> r \<and> r < length h') m' \<and> distinct m'
      \<and> map ((!) h') m' = mergeLoop lc (map ((!) h) ts) (map_option ((!) h) cur) (map ((!) h) merged)"
  using assms
proof (induction ts arbitrary: cur merged h)
  case Nil
  show ?case
  proof (cases cur)
    case None
    with Nil show ?thesis by (auto simp: storeInv_def)
  next
    case (Some c)
    with Nil show ?thesis by (auto simp: storeInv_def)
  qed
next
  case (Cons th rest)
  from Cons.prems(1) have thlt: "th < n0" and restlt: "list_all (\<lambda>r. r < n0) rest"
    by simp_all
  from Cons.prems(2) have n0: "n0 \<le> length h"
    and ml: "list_all (\<lambda>r. n0 \<le> r \<and> r < length h) merged"
    by (simp_all add: storeInv_def)
  have ml': "list_all (\<lambda>r. r < length h) merged"
    using ml by (rule list_all_weaken) simp
  have rl: "list_all (\<lambda>r. r < length h) rest"
    using restlt by (rule list_all_weaken) (use n0 in simp)
  let ?ha = "h @ [h ! th]"
  have a1: "map ((!) ?ha) rest = map ((!) h) rest"
    using rl by (rule map_nth_snoc)
  have a2: "map ((!) ?ha) merged = map ((!) h) merged"
    using ml' by (rule map_nth_snoc)
  have a3: "\<forall>r<n0. ?ha ! r = h ! r"
    using n0 by (simp add: nth_append)
  have a4: "?ha ! length h = h ! th"
    by simp
  show ?case
  proof (cases cur)
    case None
    from Cons.prems(3) None
    have run: "mergeLoopS lc rest (Some (length h)) merged ?ha = (m', h')"
      by simp
    have inv: "storeInv n0 ?ha (Some (length h)) merged"
      using storeInv_alloc [OF Cons.prems(2), of "h ! th"] None by simp
    have ih: "(\<forall>r<n0. h' ! r = ?ha ! r) \<and> list_all (\<lambda>r. n0 \<le> r \<and> r < length h') m' \<and> distinct m'
      \<and> map ((!) h') m' = mergeLoop lc (map ((!) ?ha) rest) (map_option ((!) ?ha) (Some (length h)))
            (map ((!) ?ha) merged)"
      using restlt inv run by (rule Cons.IH)
    have "mergeLoop lc (map ((!) h) (th # rest)) (map_option ((!) h) cur) (map ((!) h) merged)
        = mergeLoop lc (map ((!) h) rest) (Some (h ! th)) (map ((!) h) merged)"
      using None by simp
    with ih a3 show ?thesis
      unfolding a1 a2 option.map a4 by simp
  next
    case (Some c)
    from Cons.prems(2) Some have c: "n0 \<le> c" "c < length h" "c \<notin> set merged"
      by (simp_all add: storeInv_def)
    have cr: "c \<notin> set rest"
      using restlt c(1) by (auto simp: list_all_iff)
    show ?thesis
    proof (cases "mergeCondition lc (h ! c) (h ! th)")
      case True
      let ?v = "if timeToSeconds (th_end (h ! c)) < timeToSeconds (th_end (h ! th))
                 then (h ! c)\<lparr>th_end := th_end (h ! th)\<rparr> else h ! c"
      let ?h2 = "h[c := ?v]"
      have h2: "(if timeToSeconds (th_end (h ! c)) < timeToSeconds (th_end (h ! th))
                 then h[c := (h ! c)\<lparr>th_end := th_end (h ! th)\<rparr>] else h) = ?h2"
        by simp
      from Cons.prems(3) Some True
      have run: "mergeLoopS lc rest (Some c) merged ?h2 = (m', h')"
        unfolding h2 [symmetric] by simp
      have inv: "storeInv n0 ?h2 (Some c) merged"
        using Cons.prems(2) Some by (simp add: storeInv_def)
      have ih: "(\<forall>r<n0. h' ! r = ?h2 ! r) \<and> list_all (\<lambda>r. n0 \<le> r \<and> r < length h') m' \<and> distinct m'
        \<and> map ((!) h') m' = mergeLoop lc (map ((!) ?h2) rest) (map_option ((!) ?h2) (Some c))
              (map ((!) ?h2) merged)"
        using restlt inv run by (rule Cons.IH)
      have u1: "map ((!) ?h2) rest = map ((!) h) rest"
        using cr by (rule map_nth_update)
      have u2: "map ((!) ?h2) merged = map ((!) h) merged"
        using c(3) by (rule map_nth_update)
      have u3: "\<forall>r<n0. ?h2 ! r = h ! r"
        using c(1) by simp
      have u4: "?h2 ! c = ?v"
        using c(2) by simp
      have "mergeLoop lc (map ((!) h) (th # rest)) (map_option ((!) h) cur) (map ((!) h) merged)
          = mergeLoop lc (map ((!) h) rest) (Some ?v) (map ((!) h) merged)"
        using Some True by simp
      with ih u3 show ?thesis
        unfolding u1 u2 option.map u4 by simp
    next
      case False
      from Cons.prems(3) Some False
      have run: "mergeLoopS lc rest (Some (length h)) (merged @ [c]) ?ha = (m', h')"
        by simp
      have inv: "storeInv n0 ?ha (Some (length h)) (merged @ [c])"
        using storeInv_alloc [OF Cons.prems(2), of "h ! th"] Some by simp
      have ih: "(\<forall>r<n0. h' ! r = ?ha ! r) \<and> list_all (\<lambda>r. n0 \<le> r \<and> r < length h') m' \<and> distinct m'
        \<and> map ((!) h') m' = mergeLoop lc (map ((!) ?ha) rest) (map_option ((!) ?ha) (Some (length h)))
              (map ((!) ?ha) (merged @ [c]))"
        using restlt inv run by (rule Cons.IH)
      have a5: "map ((!) ?ha) (merged @ [c]) = map ((!) h) merged @ [h ! c]"
        using a2 c(2) by (simp add: nth_append)
      have "mergeLoop lc (map ((!) h) (th # rest)) (map_option ((!) h) cur) (map ((!) h) merged)
          = mergeLoop lc (map ((!) h) rest) (Some (h ! th)) (map ((!) h) merged @ [h ! c])"
        using Some False by simp
      with ih a3 show ?thesis
        unfolding a1 a5 option.map a4 by simp
    qed
  qed
qed


lemma map_insort_key:
  "map f (insort_key (\<lambda>r. k (f r)) x xs) = insort_key k (f x) (map f xs)"
  by (induction xs) simp_all

lemma map_sort_key:
  "map f (sort_key (\<lambda>r. k (f r)) xs) = sort_key k (map f xs)"
  by (induction xs) (simp_all add: map_insort_key)

text \<open>
  C10. \<open>mergeOverlappingThemes\<close> sorts the array it is given: after the call the
  argument array holds the same references, in ascending order of start time. The objects
  of the caller are as they were, the returned array holds distinct objects allocated by
  the call, and their values are what the function returns on the values.
\<close>

theorem mergeOverlappingThemes_sorts_argument:
  assumes "list_all (\<lambda>r. r < length h) themes"
    and "mergeOverlappingThemesS toLowerCase themes h = (themes', merged, h')"
  shows "mset themes' = mset themes
       \<and> sorted (map (\<lambda>r. startKey (h' ! r)) themes')
       \<and> (\<forall>r<length h. h' ! r = h ! r)
       \<and> list_all (\<lambda>r. length h \<le> r \<and> r < length h') merged \<and> distinct merged
       \<and> map ((!) h') merged = mergeOverlappingThemes toLowerCase (map ((!) h) themes)"
proof -
  let ?sorted = "sort_key (\<lambda>r. startKey (h ! r)) themes"
  from assms(2) have t: "themes' = ?sorted"
    and run: "mergeLoopS toLowerCase ?sorted None [] h = (merged, h')"
    by (auto simp: mergeOverlappingThemesS_def Let_def split: prod.splits)
  have valid: "list_all (\<lambda>r. r < length h) ?sorted"
    using assms(1) by (simp add: list_all_iff)
  have inv: "storeInv (length h) h None []"
    by (simp add: storeInv_def)
  from mergeLoopS_correct [OF valid inv run]
  have frame: "\<forall>r<length h. h' ! r = h ! r"
    and fresh: "list_all (\<lambda>r. length h \<le> r \<and> r < length h') merged" "distinct merged"
    and vals: "map ((!) h') merged = mergeLoop toLowerCase (map ((!) h) ?sorted) None []"
    by simp_all
  have e: "map (\<lambda>r. startKey (h' ! r)) ?sorted = map (\<lambda>r. startKey (h ! r)) ?sorted"
    using valid frame by (simp add: list_all_iff)
  have "sorted (map (\<lambda>r. startKey (h ! r)) ?sorted)"
    by simp
  then have "sorted (map (\<lambda>r. startKey (h' ! r)) ?sorted)"
    unfolding e .
  moreover have "map ((!) h) ?sorted = sort_key startKey (map ((!) h) themes)"
    by (rule map_sort_key)
  ultimately show ?thesis
    using t frame fresh vals by (simp add: mergeOverlappingThemes_def)
qed

lemma example_keys:
  "startKey (exampleStore ! 0) = 5" "startKey (exampleStore ! Suc 0) = 1"
  by (simp_all add: exampleStore_def startKey_def) code_simp+

lemma example_not_similar: "\<not> areSimilarThemes asciiLower (js ''a'') (js ''b'')"
proof -
  have "normalizeTheme asciiLower (js ''a'') = js ''a''" "normalizeTheme asciiLower (js ''b'') = js ''b''"
    by (simp_all add: normalizeTheme_def asciiLower_def trim_def fillers_def punctuation_def js_def isWhiteSpace_def)
  moreover have "splitWs (js ''a'') = [js ''a'']" "splitWs (js ''b'') = [js ''b'']"
    by (simp_all add: js_def isWhiteSpace_def)
  moreover have "\<not> dbl (7 / 10) \<le> ddiv (dmul 2 0) (dadd 1 1)"
    by code_simp
  ultimately show ?thesis
    by (simp add: areSimilarThemes_def js_def)
qed

lemma example_run:
  "mergeOverlappingThemesS asciiLower [0, 1] exampleStore
     = ([1, 0], [2, 3], exampleStore @ [exampleStore ! 1, exampleStore ! 0])"
proof -
  have s: "sort_key (\<lambda>r. startKey (exampleStore ! r)) [0, 1] = [1, 0]"
    using example_keys by simp
  have l: "length exampleStore = 2"
    by (simp add: exampleStore_def)
  have n: "\<not> mergeCondition asciiLower (exampleStore ! 1) (exampleStore ! 0)"
    using example_not_similar by (simp add: mergeCondition_def exampleStore_def)
  show ?thesis
    unfolding mergeOverlappingThemesS_def s Let_def
    using n l by (simp add: nth_append)
qed

theorem mergeOverlappingThemes_sorts_argument_witness:
  "list_all (\<lambda>r. r < length exampleStore) [0, 1]
   \<and> mset [1, 0 :: nat] = mset [0, 1]
   \<and> sorted (map (\<lambda>r. startKey ((exampleStore @ [exampleStore ! 1, exampleStore ! 0]) ! r)) [1, 0])
   \<and> distinct [2, 3 :: nat]"
proof -
  have h: "list_all (\<lambda>r. r < length exampleStore) [0, 1]"
    by (simp add: exampleStore_def)
  from mergeOverlappingThemes_sorts_argument [OF h example_run] h show ?thesis
    by (simp add: example_keys)
qed

section \<open>Properties of the chunked extraction\<close>

declare slices.simps [simp del]

lemma chunkLoop_returns:
  "0 < n \<Longrightarrow>
     chunkLoop subs n i acc = Some (acc @ map formatSubtitlesToSrt (slices n (drop i subs)))"
proof (induction "length subs - i" arbitrary: i acc rule: less_induct)
  case less
  show ?case
  proof (cases "i < length subs")
    case True
    with less.prems have "length subs - (i + n) < length subs - i"
      by simp
    from less.hyps [OF this less.prems]
    have "chunkLoop subs n (i + n) (acc @ [formatSubtitlesToSrt (take n (drop i subs))])
            = Some ((acc @ [formatSubtitlesToSrt (take n (drop i subs))])
                      @ map formatSubtitlesToSrt (slices n (drop (i + n) subs)))" .
    moreover have "slices n (drop i subs) = take n (drop i subs) # slices n (drop (i + n) subs)"
      using True less.prems by (subst slices.simps) (simp add: add.commute)
    ultimately show ?thesis
      using True by (subst chunkLoop.simps) simp
  next
    case False
    then have "slices n (drop i subs) = []"
      by (subst slices.simps) simp
    with False show ?thesis
      by (subst chunkLoop.simps) simp
  qed
qed

lemma subChunkSize_ge_5: "5 \<le> subChunkSize n"
  by (simp add: subChunkSize_def)

lemma splitAndProcessChunk_eq:
  "splitAndProcessChunk ext chunk w = Some (subChunkLoop ext (subChunksOf chunk) [] w)"
proof -
  have "0 < subChunkSize (length (parseSrt chunk))"
    using subChunkSize_ge_5 [of "length (parseSrt chunk)"] by simp
  from chunkLoop_returns [OF this, of "parseSrt chunk" 0 "[]"] show ?thesis
    by (simp add: splitAndProcessChunk_def subChunksOf_def Let_def)
qed

lemma fatal_simps:
  "fatal (Inl message) = (message \<noteq> FORCE_SPLIT)" "fatal (Inr ts) = False"
  by (simp_all add: fatal_def)

lemma kept_simps: "kept (Inl message) = []" "kept (Inr ts) = ts"
  by (simp_all add: kept_def)

lemma subChunkLoop_result:
  "fst (subChunkLoop ext cs acc w) =
     (case find fatal (runAll ext cs w) of
        None \<Rightarrow> Inr (acc @ concat (map kept (runAll ext cs w)))
      | Some e \<Rightarrow> e)"
proof (induction cs arbitrary: acc w)
  case Nil
  show ?case by simp
next
  case (Cons c cs)
  obtain r w' where e: "ext w c = (r, w')"
    by (cases "ext w c")
  show ?case
  proof (cases r)
    case (Inl message)
    show ?thesis
    proof (cases "message = FORCE_SPLIT")
      case True
      with e Inl Cons.IH [of acc w'] show ?thesis
        by (simp add: fatal_simps kept_simps split: option.splits)
    next
      case False
      with e Inl show ?thesis
        by (simp add: fatal_simps)
    qed
  next
    case (Inr ts)
    with e Cons.IH [of "acc @ ts" w'] show ?thesis
      by (simp add: fatal_simps kept_simps split: option.splits)
  qed
qed

text \<open>
  C4. \<open>splitAndProcessChunk\<close> always returns. When no outcome of the extractor on the
  sub-chunks is fatal, that is, when every failure is \<open>FORCE_SPLIT\<close>, it returns
  normally with the themes of all the sub-chunks that succeeded, in order, the failed
  ones skipped. Otherwise it throws the first error that is not \<open>FORCE_SPLIT\<close>.
\<close>

theorem splitAndProcessChunk_skips_capacity_errors:
  "map_option fst (splitAndProcessChunk ext chunk w) =
     Some (case find fatal (runAll ext (subChunksOf chunk) w) of
             None \<Rightarrow> Inr (concat (map kept (runAll ext (subChunksOf chunk) w)))
           | Some e \<Rightarrow> e)"
  using subChunkLoop_result [of ext "subChunksOf chunk" "[]" w]
  by (simp add: splitAndProcessChunk_eq split: option.splits)


text \<open>In \<open>processLargeSrt\<close>, a chunk of more than 1000 code units that fails with
  \<open>FORCE_SPLIT\<close> is replaced by what \<open>splitAndProcessChunk\<close> returns for it, and the
  loop goes on with the themes gathered so far; an error of the sub-chunks ends it.\<close>

lemma processChunks_after_split:
  assumes "ext w chunk = (Inl FORCE_SPLIT, w1)" "1000 < length chunk"
  shows "processChunks ext (chunk # rest) allThemes w =
           (case subChunkLoop ext (subChunksOf chunk) [] w1 of
              (Inr subChunks, w2) \<Rightarrow> processChunks ext rest (allThemes @ subChunks) w2
            | (Inl e, w2) \<Rightarrow> Some (Inl e, w2))"
  using assms by (simp add: splitAndProcessChunk_eq split: prod.splits sum.splits)

lemma length_parse_sixCues: "length (parseSrt sixCues) = 6"
  by (simp add: sixCues_def cueText_def srt_defs string_defs)

lemma subChunkSize_6: "subChunkSize 6 = 5"
proof -
  have "\<lceil>ddiv 6 4\<rceil> = 2"
    by code_simp
  then show ?thesis
    by (simp add: subChunkSize_def)
qed

lemma slices_two: "length xs = 6 \<Longrightarrow> slices 5 xs = [take 5 xs, drop 5 xs]"
  by (subst slices.simps, simp, subst slices.simps, simp, subst slices.simps, auto)

lemma subChunksOf_sixCues:
  "subChunksOf sixCues =
     [formatSubtitlesToSrt (take 5 (parseSrt sixCues)),
      formatSubtitlesToSrt (drop 5 (parseSrt sixCues))]"
  by (simp add: subChunksOf_def length_parse_sixCues subChunkSize_6 slices_two)

theorem splitAndProcessChunk_skips_capacity_errors_witness:
  "map_option fst (splitAndProcessChunk firstFailsExt sixCues 0) = Some (Inr [oneTheme])"
  using splitAndProcessChunk_skips_capacity_errors [of firstFailsExt sixCues 0]
  by (simp add: subChunksOf_sixCues firstFailsExt_def fatal_simps kept_simps)

lemma splitOn_no_separator: "d \<notin> set s \<Longrightarrow> splitOn d s = [s]"
  by (induction s) auto

lemma not_isWhiteSpace_a: "\<not> isWhiteSpace 97"
  by (simp add: isWhiteSpace_def)

lemma dropWhile_replicate_a: "dropWhile isWhiteSpace (replicate n 97) = replicate n 97"
  using not_isWhiteSpace_a by (cases n) simp_all

lemma trim_replicate_a: "trim (replicate n 97) = replicate n 97"
  by (simp add: trim_def not_isWhiteSpace_a)

lemma trim_replicate_a_NL: "trim (replicate n 97 @ [NL]) = replicate n 97"
proof (cases n)
  case 0
  then show ?thesis
    by (simp add: trim_def isWhiteSpace_def NL_def)
next
  case (Suc m)
  have "dropWhile isWhiteSpace (replicate (Suc m) 97 @ [NL]) = replicate (Suc m) 97 @ [NL]"
    using not_isWhiteSpace_a by simp
  moreover have "rev (replicate (Suc m) 97 @ [NL]) = NL # replicate (Suc m) 97"
    unfolding rev_append rev_replicate by simp
  moreover have "dropWhile isWhiteSpace (NL # replicate (Suc m) 97) = replicate (Suc m) 97"
    using dropWhile_replicate_a [of "Suc m"] by (simp add: isWhiteSpace_def NL_def)
  moreover have "rev (replicate (Suc m) (97::nat)) = replicate (Suc m) 97"
    by (rule rev_replicate)
  ultimately show ?thesis
    unfolding trim_def Suc by (simp only:)
qed

lemma isTextLine_replicate_a:
  assumes "0 < n"
  shows "isTextLine (replicate n 97)"
proof -
  have "\<not> list_all isDigit (replicate n 97)"
    using assms by (cases n) (simp_all add: isDigit_def)
  moreover have "replicate n (97::nat) \<noteq> []"
    using assms by simp
  ultimately show ?thesis
    unfolding isTextLine_def trim_replicate_a allDigits_def by simp
qed

lemma splitOn_longCue:
  "splitOn NL longCue = [js ''1'', js ''00:00:01,000 --> 00:00:02,000'', replicate 40000 97]"
proof -
  have "splitOn NL (replicate 40000 97) = [replicate 40000 97]"
    by (rule splitOn_no_separator) (simp add: NL_def)
  then show ?thesis
    by (simp add: longCue_def js_def NL_def)
qed

lemma parseSrt_longCue:
  "parseSrt longCue =
     [\<lparr>sub_id = 1, sub_start = js ''00:00:01'', sub_end = js ''00:00:02'',
       sub_text = replicate 40000 97\<rparr>]"
proof -
  have t: "isTextLine (replicate 40000 97)"
    by (rule isTextLine_replicate_a) simp
  have "trim (js ''1'') \<noteq> []" "parseInt (js ''1'') = Some 1"
    "search pairAtoms (js ''00:00:01,000 --> 00:00:02,000'') = Some (js ''00:00:01,000 --> 00:00:02,000'')"
    by (simp_all add: js_def trim_def isWhiteSpace_def parseInt_def isDigit_def decVal_def
          pairAtoms_def tsAtoms_def)
  then show ?thesis
    unfolding parseSrt_def splitOn_longCue
    using t by (simp add: trim_replicate_a_NL) (simp add: js_def)
qed

lemma length_longCue: "length longCue = 40032"
  by (simp add: longCue_def js_def)

lemma chunkLoop_Some_progress:
  assumes "chunkLoop subtitles chunkSize i chunks = Some y"
  shows "chunkSize = 0 \<longrightarrow> length subtitles \<le> i"
proof (rule chunkLoop.raw_induct
    [where P = "\<lambda>subs n j acc y. n = 0 \<longrightarrow> length subs \<le> j", OF _ assms])
  fix f :: "subtitle list \<Rightarrow> nat \<Rightarrow> nat \<Rightarrow> jsstring list \<Rightarrow> jsstring list option"
  fix subs n j acc y
  assume ih: "\<And>a b c d y. f a b c d = Some y \<Longrightarrow> b = 0 \<longrightarrow> length a \<le> c"
    and eq: "(if j < length subs
              then f subs n (j + n) (acc @ [formatSubtitlesToSrt (take n (drop j subs))])
              else Some acc) = Some y"
  show "n = 0 \<longrightarrow> length subs \<le> j"
  proof (cases "j < length subs")
    case True
    with eq have "f subs n (j + n) (acc @ [formatSubtitlesToSrt (take n (drop j subs))]) = Some y"
      by simp
    from ih [OF this] True show ?thesis
      by simp
  next
    case False
    then show ?thesis by simp
  qed
qed

lemma chunkLoop_zero_diverges:
  "i < length subtitles \<Longrightarrow> chunkLoop subtitles 0 i chunks = None"
  using chunkLoop_Some_progress [of subtitles 0 i chunks]
  by (cases "chunkLoop subtitles 0 i chunks") auto

lemma maxTokens_gpt4: "getModelMaxTokens (js ''gpt-4'') (js ''openai'') = 8192"
  by (simp add: getModelMaxTokens_def openaiModelLimits_def js_def)

lemma perChunk_longCue: "subtitlesPerChunk 8192 40032 (Suc 0) = 0"
proof -
  have "\<lfloor>ddiv (ddiv (dsub 8192 500) (ddiv (ddiv 40032 1) 4)) 4\<rfloor> = 0"
    by code_simp
  then show ?thesis
    by (simp add: subtitlesPerChunk_def)
qed

text \<open>
  C3. For the block of one long cue and the model \<open>gpt-4\<close>, \<open>processLargeSrt\<close>
  computes a chunk size of \<open>0\<close>, and its loop over the subtitles never ends: the floor
  that \<open>splitAndProcessChunk\<close> puts on its chunk size is missing here.
\<close>

theorem processLargeSrt_zero_chunk_size:
  "subtitlesPerChunk (getModelMaxTokens (js ''gpt-4'') (js ''openai'')) (length longCue)
     (length (parseSrt longCue)) = 0
   \<and> processLargeSrt_chunks longCue (js ''gpt-4'') (js ''openai'') = None
   \<and> processLargeSrt toLowerCase ext longCue (js ''gpt-4'') (js ''openai'') w = None"
proof -
  have "chunkLoop (parseSrt longCue) 0 0 [] = None"
    by (rule chunkLoop_zero_diverges) (simp add: parseSrt_longCue)
  then have "processLargeSrt_chunks longCue (js ''gpt-4'') (js ''openai'') = None"
    by (simp add: processLargeSrt_chunks_def maxTokens_gpt4 length_longCue perChunk_longCue
          parseSrt_longCue)
  then show ?thesis
    by (simp add: processLargeSrt_def maxTokens_gpt4 length_longCue perChunk_longCue
          parseSrt_longCue)
qed

end
